theory Spec2Isabelle
  imports Complex_Main
begin

section \<open>Data model of iirfilt.c\<close>

text \<open>
  The development follows the real-valued instance of the template (output, coefficient
  and input type all \<^verbatim>\<open>float\<close>, the default branch of every preprocessor
  conditional: \<^verbatim>\<open>LIQUID_FIXED\<close> undefined, \<^verbatim>\<open>LIQUID_IIRFILT_USE_DOTPROD\<close>
  equal to 0). Floating-point numbers are idealised as \<^typ>\<open>real\<close>, and
  \<^verbatim>\<open>float complex\<close> as \<^typ>\<open>complex\<close>: rounding, infinities and NaN are not
  modelled. Counts of type \<^verbatim>\<open>unsigned int\<close> are natural numbers, with the
  reduction modulo \<open>2 ^ 32\<close> written where the source multiplies them.

  An array on the heap is the list of its initialised cells. A store beyond the size
  passed to \<^verbatim>\<open>malloc\<close>, or a load beyond the cells an array has, is undefined
  behaviour in C and the result \<open>Inl MemoryFault\<close> here; a call of
  \<^verbatim>\<open>exit(1)\<close> after a diagnostic is \<open>Inl ConfigError\<close>.
\<close>

datatype error = ConfigError | MemoryFault | SectionError

datatype iirfilt_type = IIRFILT_TYPE_NORM | IIRFILT_TYPE_SOS

text \<open>
  Modelled from the spec: the second-order section object \<^verbatim>\<open>IIRFILTSOS()\<close>, whose
  source file is not part of the sources at hand. The spec gives it a 3-tap numerator
  \<open>b[0..2]\<close>, a 3-tap denominator \<open>a[0..2]\<close> and a 2-element delay state.
\<close>

record iirfiltsos =
  s_b0 :: real
  s_b1 :: real
  s_b2 :: real
  s_a0 :: real
  s_a1 :: real
  s_a2 :: real
  s_v1 :: real
  s_v2 :: real

text \<open>The structure \<^verbatim>\<open>struct IIRFILT(_s)\<close>; field \<open>q_x\<close> is \<^verbatim>\<open>q->x\<close>.\<close>

record iirfilt =
  q_b :: "real list"
  q_a :: "real list"
  q_v :: "real list"
  q_n :: nat
  q_nb :: nat
  q_na :: nat
  q_type :: iirfilt_type
  q_qsos :: "iirfiltsos list"
  q_nsos :: nat

section \<open>Second-order sections\<close>

text \<open>
  Modelled from the spec: \<^verbatim>\<open>IIRFILTSOS(_create)\<close>. The spec: "normalizes so
  a[0]=1, zero-initializes state. Fails (aborts/returns error) if a[0] == 0", the
  normalisation being the division of both coefficient triples by \<open>a[0]\<close>.
\<close>

definition iirfiltsos_create :: "real list \<Rightarrow> real list \<Rightarrow> error + iirfiltsos" where
  "iirfiltsos_create bt ta =
     (if ta ! 0 = 0 then Inl SectionError
      else Inr \<lparr>s_b0 = bt ! 0 / ta ! 0, s_b1 = bt ! 1 / ta ! 0, s_b2 = bt ! 2 / ta ! 0,
                s_a0 = ta ! 0 / ta ! 0, s_a1 = ta ! 1 / ta ! 0, s_a2 = ta ! 2 / ta ! 0,
                s_v1 = 0, s_v2 = 0\<rparr>)"

text \<open>
  Modelled from the spec: \<^verbatim>\<open>IIRFILTSOS(_execute)\<close>. The spec:
  \<^verbatim>\<open>w = x - a1*v1 - a2*v2; y = b0*w + b1*v1 + b2*v2; v2=v1; v1=w\<close>.
\<close>

definition iirfiltsos_execute :: "iirfiltsos \<Rightarrow> real \<Rightarrow> iirfiltsos \<times> real" where
  "iirfiltsos_execute s x =
     (let w = x - s_a1 s * s_v1 s - s_a2 s * s_v2 s;
          y = s_b0 s * w + s_b1 s * s_v1 s + s_b2 s * s_v2 s
      in (s\<lparr>s_v2 := s_v1 s, s_v1 := w\<rparr>, y))"

text \<open>
  Modelled from the spec: \<^verbatim>\<open>IIRFILTSOS(_clear)\<close>. The spec: "zero the 2-element
  state; no-op on coefficients".
\<close>

definition iirfiltsos_clear :: "iirfiltsos \<Rightarrow> iirfiltsos" where
  "iirfiltsos_clear s = s\<lparr>s_v1 := 0, s_v2 := 0\<rparr>"

section \<open>Clearing\<close>

text \<open>
  \<^verbatim>\<open>for (i=0; i<_q->n; i++) _q->v[i] = 0;\<close> after \<open>k\<close> iterations.
\<close>

primrec zero_fill :: "nat \<Rightarrow> real list \<Rightarrow> real list" where
  "zero_fill 0 w = w"
| "zero_fill (Suc i) w = (zero_fill i w)[i := 0]"

text \<open>
  \<^verbatim>\<open>for (i=0; i<_q->nsos; i++) IIRFILTSOS(_clear)(_q->qsos[i]);\<close> after \<open>k\<close>
  iterations.
\<close>

primrec clear_sections :: "nat \<Rightarrow> iirfiltsos list \<Rightarrow> iirfiltsos list" where
  "clear_sections 0 ss = ss"
| "clear_sections (Suc i) ss =
     (let ss' = clear_sections i ss in ss'[i := iirfiltsos_clear (ss' ! i)])"

definition clear :: "iirfilt \<Rightarrow> iirfilt" where
  "clear q =
     (if q_type q = IIRFILT_TYPE_SOS
      then q\<lparr>q_qsos := clear_sections (q_nsos q) (q_qsos q)\<rparr>
      else q\<lparr>q_v := zero_fill (q_n q) (q_v q)\<rparr>)"

section \<open>Construction in normal form\<close>

text \<open>
  One normalisation loop, \<^verbatim>\<open>for (i=0; i<cnt; i++) dst[i] = src[i] / a0;\<close>, after
  \<open>k\<close> iterations, where \<open>cap\<close> is the number of cells \<open>dst\<close> was allocated with.
\<close>

primrec store_div :: "nat \<Rightarrow> real list \<Rightarrow> real \<Rightarrow> nat \<Rightarrow> error + real list" where
  "store_div cap src a0 0 = Inr []"
| "store_div cap src a0 (Suc i) =
     (case store_div cap src a0 i of
        Inl e \<Rightarrow> Inl e
      | Inr dst \<Rightarrow>
          if i < cap \<and> i < length src then Inr (dst @ [src ! i / a0]) else Inl MemoryFault)"

text \<open>
  \<^verbatim>\<open>IIRFILT(_create)\<close>. The argument \<open>m\<close> is the block \<^verbatim>\<open>malloc\<close> returns for
  the structure: the fields the constructor does not assign keep its contents. The
  source allocates \<^verbatim>\<open>q->b\<close> with \<^verbatim>\<open>q->na\<close> cells and \<^verbatim>\<open>q->a\<close> with
  \<^verbatim>\<open>q->nb\<close> cells. The state buffer is allocated with \<^verbatim>\<open>q->n\<close> cells, all of
  which \<^verbatim>\<open>IIRFILT(_clear)\<close> overwrites.
\<close>

definition create :: "iirfilt \<Rightarrow> real list \<Rightarrow> nat \<Rightarrow> real list \<Rightarrow> nat \<Rightarrow> error + iirfilt" where
  "create m xb nb xa na =
     (if nb = 0 then Inl ConfigError
      else if na = 0 then Inl ConfigError
      else
        let q1 = m\<lparr>q_nb := nb, q_na := na\<rparr>;
            q2 = q1\<lparr>q_n := (if q_na q1 > q_nb q1 then q_na q1 else q_nb q1),
                    q_type := IIRFILT_TYPE_NORM\<rparr>;
            cap_b = q_na q2;
            cap_a = q_nb q2
        in (case xa of
              [] \<Rightarrow> Inl MemoryFault
            | a0 # _ \<Rightarrow>
               (case store_div cap_b xb a0 (q_nb q2) of
                  Inl e \<Rightarrow> Inl e
                | Inr qb \<Rightarrow>
                   (case store_div cap_a xa a0 (q_na q2) of
                      Inl e \<Rightarrow> Inl e
                    | Inr qa \<Rightarrow>
                        Inr (clear (q2\<lparr>q_b := qb, q_a := qa,
                                        q_v := replicate (q_n q2) 0\<rparr>))))))"

text \<open>\<^verbatim>\<open>IIRFILT(_create_dc_blocker)\<close>: \<^verbatim>\<open>a1 = -1.0f + _alpha\<close>.\<close>

definition create_dc_blocker :: "iirfilt \<Rightarrow> real \<Rightarrow> error + iirfilt" where
  "create_dc_blocker m alpha =
     (let a1 = - 1 + alpha in create m [1, - 1] 2 [1, a1] 2)"

section \<open>Execution in normal form\<close>

text \<open>
  \<^verbatim>\<open>for (i=_q->n-1; i>0; i--) _q->v[i] = _q->v[i-1];\<close> started at \<open>i = k\<close>.
\<close>

primrec advance :: "nat \<Rightarrow> real list \<Rightarrow> real list" where
  "advance 0 w = w"
| "advance (Suc i) w = advance i (w[Suc i := w ! i])"

text \<open>
  \<^verbatim>\<open>for (i=1; i<_q->na; i++) v0 -= _q->a[i] * _q->v[i];\<close> after \<open>k\<close> iterations,
  started from \<open>v0 = x\<close>.
\<close>

primrec feedback :: "real list \<Rightarrow> real list \<Rightarrow> real \<Rightarrow> nat \<Rightarrow> real" where
  "feedback ca w x 0 = x"
| "feedback ca w x (Suc k) = feedback ca w x k - ca ! Suc k * w ! Suc k"

text \<open>
  \<^verbatim>\<open>for (i=0; i<_q->nb; i++) y0 += _q->b[i] * _q->v[i];\<close> after \<open>k\<close> iterations,
  started from \<open>y0 = 0\<close>.
\<close>

primrec feedforward :: "real list \<Rightarrow> real list \<Rightarrow> nat \<Rightarrow> real" where
  "feedforward cb w 0 = 0"
| "feedforward cb w (Suc k) = feedforward cb w k + cb ! k * w ! k"

text \<open>
  \<^verbatim>\<open>IIRFILT(_execute_norm)\<close>: the new structure and the value stored to
  \<^verbatim>\<open>*_y\<close>. Every index the loops use is below the length of its array when the
  filter satisfies \<open>valid_norm\<close> below; outside it the C code reads or writes out of
  bounds and nothing is claimed.
\<close>

definition execute_norm :: "iirfilt \<Rightarrow> real \<Rightarrow> iirfilt \<times> real" where
  "execute_norm q x =
     (let w = advance (q_n q - 1) (q_v q);
          v0 = feedback (q_a q) w x (q_na q - 1);
          w' = w[0 := v0];
          y0 = feedforward (q_b q) w' (q_nb q)
      in (q\<lparr>q_v := w'\<rparr>, y0))"

section \<open>Construction in second-order-sections form\<close>

text \<open>
  The inner loop \<^verbatim>\<open>for (k=0; k<3; k++) at[k] = q->a[3*i+k];\<close> on one array: the
  index is computed in \<^verbatim>\<open>unsigned int\<close>.
\<close>

definition load3 :: "real list \<Rightarrow> nat \<Rightarrow> error + real list" where
  "load3 arr i =
     (let i0 = (3 * i + 0) mod 2 ^ 32; i1 = (3 * i + 1) mod 2 ^ 32; i2 = (3 * i + 2) mod 2 ^ 32
      in if i0 < length arr \<and> i1 < length arr \<and> i2 < length arr
         then Inr [arr ! i0, arr ! i1, arr ! i2] else Inl MemoryFault)"

text \<open>
  \<^verbatim>\<open>for (i=0; i<q->nsos; i++) { ...; q->qsos[i] = IIRFILTSOS(_create)(bt,at); }\<close>
  after \<open>k\<close> iterations; the list holds the sections created so far.
\<close>

primrec create_sections :: "real list \<Rightarrow> real list \<Rightarrow> nat \<Rightarrow> error + iirfiltsos list" where
  "create_sections qb qa 0 = Inr []"
| "create_sections qb qa (Suc i) =
     (case create_sections qb qa i of
        Inl e \<Rightarrow> Inl e
      | Inr ss \<Rightarrow>
         (case load3 qa i of
            Inl e \<Rightarrow> Inl e
          | Inr ta \<Rightarrow>
             (case load3 qb i of
                Inl e \<Rightarrow> Inl e
              | Inr bt \<Rightarrow>
                 (case iirfiltsos_create bt ta of
                    Inl e \<Rightarrow> Inl e
                  | Inr s \<Rightarrow> Inr (ss @ [s])))))"

text \<open>
  \<^verbatim>\<open>IIRFILT(_create_sos)\<close>. The element count \<^verbatim>\<open>3*(q->nsos)\<close> of the two
  allocations and of the two \<^verbatim>\<open>memmove\<close> calls is an \<^verbatim>\<open>unsigned int\<close>
  product (\<^verbatim>\<open>size_t\<close> is taken to be wider), as is \<^verbatim>\<open>_nsos * 2\<close>;
  \<^verbatim>\<open>memmove\<close> loads that many cells of the caller's arrays.
\<close>

definition create_sos :: "iirfilt \<Rightarrow> real list \<Rightarrow> real list \<Rightarrow> nat \<Rightarrow> error + iirfilt" where
  "create_sos m B A nsos =
     (if nsos = 0 then Inl ConfigError
      else
        let q1 = m\<lparr>q_type := IIRFILT_TYPE_SOS, q_nsos := nsos\<rparr>;
            q2 = q1\<lparr>q_n := (nsos * 2) mod 2 ^ 32\<rparr>;
            cnt = (3 * q_nsos q2) mod 2 ^ 32
        in if length B < cnt \<or> length A < cnt then Inl MemoryFault
           else
             let q3 = q2\<lparr>q_b := take cnt B, q_a := take cnt A\<rparr>
             in (case create_sections (q_b q3) (q_a q3) (q_nsos q3) of
                   Inl e \<Rightarrow> Inl e
                 | Inr ss \<Rightarrow> Inr (q3\<lparr>q_qsos := ss\<rparr>)))"

text \<open>
  \<^verbatim>\<open>IIRFILT(_create_pll)\<close>. The design routine \<^verbatim>\<open>iirdes_pll_active_lag\<close> is
  not part of the sources at hand and is the parameter \<open>lag\<close>, returning the triples
  \<^verbatim>\<open>bf[3]\<close> and \<^verbatim>\<open>af[3]\<close>.
\<close>

definition create_pll ::
  "(real \<Rightarrow> real \<Rightarrow> real \<Rightarrow> (real \<times> real \<times> real) \<times> (real \<times> real \<times> real)) \<Rightarrow>
   iirfilt \<Rightarrow> real \<Rightarrow> real \<Rightarrow> real \<Rightarrow> error + iirfilt" where
  "create_pll lag m w zeta K =
     (if w \<le> 0 \<or> w \<ge> 1 then Inl ConfigError
      else if zeta \<le> 0 \<or> zeta \<ge> 1 then Inl ConfigError
      else if K \<le> 0 then Inl ConfigError
      else
        (case lag w zeta K of
           ((bf0, bf1, bf2), (af0, af1, af2)) \<Rightarrow>
             create_sos m [bf0, bf1, bf2] [af0, af1, af2] 1))"

section \<open>Execution in second-order-sections form\<close>

text \<open>
  The loop of \<^verbatim>\<open>IIRFILT(_execute_sos)\<close> after \<open>k\<close> iterations: the sections and
  the variables \<^verbatim>\<open>t0\<close> and \<^verbatim>\<open>t1\<close>.
\<close>

primrec run_sections ::
  "nat \<Rightarrow> iirfiltsos list \<Rightarrow> real \<Rightarrow> real \<Rightarrow> iirfiltsos list \<times> real \<times> real" where
  "run_sections 0 ss t0 t1 = (ss, t0, t1)"
| "run_sections (Suc i) ss t0 t1 =
     (case run_sections i ss t0 t1 of
        (ss', u0, u1) \<Rightarrow>
          (case iirfiltsos_execute (ss' ! i) u0 of
             (s', y) \<Rightarrow> (ss'[i := s'], y, y)))"

definition execute_sos :: "iirfilt \<Rightarrow> real \<Rightarrow> iirfilt \<times> real" where
  "execute_sos q x =
     (case run_sections (q_nsos q) (q_qsos q) x 0 of
        (ss, t0, t1) \<Rightarrow> (q\<lparr>q_qsos := ss\<rparr>, t1))"

text \<open>\<^verbatim>\<open>IIRFILT(_execute)\<close>.\<close>

definition execute :: "iirfilt \<Rightarrow> real \<Rightarrow> iirfilt \<times> real" where
  "execute q x =
     (if q_type q = IIRFILT_TYPE_NORM then execute_norm q x else execute_sos q x)"

section \<open>Frequency response and group delay\<close>

text \<open>\<^verbatim>\<open>cexpf(_Complex_I*2*M_PI*_fc*k)\<close>.\<close>

definition cexpf_term :: "real \<Rightarrow> nat \<Rightarrow> complex" where
  "cexpf_term fc k = exp (\<i> * 2 * complex_of_real pi * complex_of_real fc * of_nat k)"

text \<open>
  The loop of \<^verbatim>\<open>IIRFILT(_freqresponse_sos)\<close> after \<open>k\<close> iterations, started from
  \<open>H = 1\<close>. Both pointers of the source, \<^verbatim>\<open>b\<close> and \<^verbatim>\<open>a\<close>, are
  \<^verbatim>\<open>&_q->b[3*i]\<close>.
\<close>

primrec freqresponse_loop :: "real list \<Rightarrow> real \<Rightarrow> nat \<Rightarrow> complex" where
  "freqresponse_loop qb fc 0 = 1"
| "freqresponse_loop qb fc (Suc i) =
     (let b = drop ((3 * i) mod 2 ^ 32) qb;
          a = drop ((3 * i) mod 2 ^ 32) qb;
          Hb = complex_of_real (b ! 0) * cexpf_term fc 0 +
               complex_of_real (b ! 1) * cexpf_term fc 1 +
               complex_of_real (b ! 2) * cexpf_term fc 2;
          Ha = complex_of_real (a ! 0) * cexpf_term fc 0 +
               complex_of_real (a ! 1) * cexpf_term fc 1 +
               complex_of_real (a ! 2) * cexpf_term fc 2
      in freqresponse_loop qb fc i * (Hb / Ha))"

definition freqresponse_sos :: "iirfilt \<Rightarrow> real \<Rightarrow> complex" where
  "freqresponse_sos q fc = freqresponse_loop (q_b q) fc (q_nsos q)"

text \<open>
  The loop \<^verbatim>\<open>groupdelay += IIRFILTSOS(_groupdelay)(_q->qsos[i], _fc) - 2;\<close> after
  \<open>k\<close> iterations. The group delay of one section is computed outside the sources at
  hand and is the parameter \<open>gd_sos\<close>.
\<close>

primrec groupdelay_loop ::
  "(iirfiltsos \<Rightarrow> real \<Rightarrow> real) \<Rightarrow> iirfiltsos list \<Rightarrow> real \<Rightarrow> nat \<Rightarrow> real" where
  "groupdelay_loop gd_sos ss fc 0 = 0"
| "groupdelay_loop gd_sos ss fc (Suc i) =
     groupdelay_loop gd_sos ss fc i + (gd_sos (ss ! i) fc - 2)"

text \<open>
  \<^verbatim>\<open>IIRFILT(_groupdelay)\<close>; \<open>gd_tf\<close> stands for \<^verbatim>\<open>iir_group_delay\<close>, which
  receives copies of the first \<open>nb\<close> and \<open>na\<close> coefficients.
\<close>

definition groupdelay ::
  "(iirfiltsos \<Rightarrow> real \<Rightarrow> real) \<Rightarrow> (real list \<Rightarrow> nat \<Rightarrow> real list \<Rightarrow> nat \<Rightarrow> real \<Rightarrow> real) \<Rightarrow>
   iirfilt \<Rightarrow> real \<Rightarrow> real" where
  "groupdelay gd_sos gd_tf q fc =
     (if q_type q = IIRFILT_TYPE_NORM
      then gd_tf (take (q_nb q) (q_b q)) (q_nb q) (take (q_na q) (q_a q)) (q_na q) fc
      else groupdelay_loop gd_sos (q_qsos q) fc (q_nsos q))"

section \<open>Validly constructed filters\<close>

text \<open>
  The structures \<^verbatim>\<open>IIRFILT(_create)\<close> builds and
  \<^verbatim>\<open>IIRFILT(_execute)\<close>/\<^verbatim>\<open>IIRFILT(_clear)\<close> keep: normal form, both
  coefficient arrays hold as many values as their counts say, and the buffer has
  \<open>n = max(na, nb)\<close> cells.
\<close>

definition valid_norm :: "iirfilt \<Rightarrow> bool" where
  "valid_norm q \<longleftrightarrow>
     q_type q = IIRFILT_TYPE_NORM \<and> 1 \<le> q_nb q \<and> 1 \<le> q_na q \<and>
     q_n q = max (q_na q) (q_nb q) \<and>
     length (q_b q) = q_nb q \<and> length (q_a q) = q_na q \<and> length (q_v q) = q_n q"

text \<open>
  The structures \<^verbatim>\<open>IIRFILT(_create_sos)\<close> builds: at least one section, one
  section object and one coefficient triple in each array per section.
\<close>

definition valid_sos :: "iirfilt \<Rightarrow> bool" where
  "valid_sos q \<longleftrightarrow>
     q_type q = IIRFILT_TYPE_SOS \<and> 1 \<le> q_nsos q \<and> 3 * q_nsos q < 2 ^ 32 \<and>
     q_n q = 2 * q_nsos q \<and> length (q_qsos q) = q_nsos q \<and>
     length (q_b q) = 3 * q_nsos q \<and> length (q_a q) = 3 * q_nsos q"

definition valid :: "iirfilt \<Rightarrow> bool" where
  "valid q \<longleftrightarrow> valid_norm q \<or> valid_sos q"

section \<open>The specification's formulations\<close>

text \<open>
  Cascade, in the spec's words: the input of the first section is the filter's input,
  and the output of section \<open>i\<close> is the input of section \<open>i + 1\<close>. \<open>sos_chain ss x i\<close>
  is the input of section \<open>i\<close> (counted from 0), and for \<open>i\<close> the number of sections
  the output of the last one.
\<close>

primrec sos_chain :: "iirfiltsos list \<Rightarrow> real \<Rightarrow> nat \<Rightarrow> real" where
  "sos_chain ss x 0 = x"
| "sos_chain ss x (Suc i) = snd (iirfiltsos_execute (ss ! i) (sos_chain ss x i))"

text \<open>
  Frequency response, in the spec's words: the 3-term DFT sum
  \<open>\<Sum>m = 0..2. c[m] e^(j 2 \<pi> fc m)\<close> of the coefficient triple of section \<open>i\<close>, and the
  product over the sections of numerator sum over denominator sum.
\<close>

definition dft3 :: "real list \<Rightarrow> nat \<Rightarrow> real \<Rightarrow> complex" where
  "dft3 c i fc = (\<Sum>m = 0..<3. complex_of_real (c ! (3 * i + m)) * cexpf_term fc m)"

definition freqresponse_spec :: "iirfilt \<Rightarrow> real \<Rightarrow> complex" where
  "freqresponse_spec q fc =
     (\<Prod>i = 0..<q_nsos q. dft3 (q_b q) i fc / dft3 (q_a q) i fc)"

text \<open>The outputs of a sequence of calls of \<^verbatim>\<open>IIRFILT(_execute)\<close> on one filter.\<close>

primrec execute_seq :: "iirfilt \<Rightarrow> real list \<Rightarrow> real list" where
  "execute_seq q [] = []"
| "execute_seq q (x # xs) = (case execute q x of (q', y) \<Rightarrow> y # execute_seq q' xs)"

text \<open>All cells of the state that the filter's form uses are zero.\<close>

definition state_zero :: "iirfilt \<Rightarrow> bool" where
  "state_zero q \<longleftrightarrow>
     (if q_type q = IIRFILT_TYPE_SOS
      then list_all (\<lambda>s. s_v1 s = 0 \<and> s_v2 s = 0) (q_qsos q)
      else list_all (\<lambda>x. x = 0) (q_v q))"

text \<open>The coefficients of a section, without its state.\<close>

definition sos_coeffs :: "iirfiltsos \<Rightarrow> real list" where
  "sos_coeffs s = [s_b0 s, s_b1 s, s_b2 s, s_a0 s, s_a1 s, s_a2 s]"

text \<open>Two structures agree on everything but the state.\<close>

definition same_coefficients :: "iirfilt \<Rightarrow> iirfilt \<Rightarrow> bool" where
  "same_coefficients q q' \<longleftrightarrow>
     q_b q' = q_b q \<and> q_a q' = q_a q \<and> q_n q' = q_n q \<and> q_nb q' = q_nb q \<and>
     q_na q' = q_na q \<and> q_nsos q' = q_nsos q \<and> q_type q' = q_type q \<and>
     map sos_coeffs (q_qsos q') = map sos_coeffs (q_qsos q)"

text \<open>
  Two structures are the same design: the same form and, in the fields that form uses,
  the same counts and coefficients.
\<close>

definition same_design :: "iirfilt \<Rightarrow> iirfilt \<Rightarrow> bool" where
  "same_design q q' \<longleftrightarrow>
     q_type q' = q_type q \<and>
     (if q_type q = IIRFILT_TYPE_NORM
      then q_b q' = q_b q \<and> q_a q' = q_a q \<and> q_n q' = q_n q \<and> q_nb q' = q_nb q \<and>
           q_na q' = q_na q
      else q_nsos q' = q_nsos q \<and> map sos_coeffs (q_qsos q') = map sos_coeffs (q_qsos q))"

text \<open>Two structures agree on every field their form reads in \<^verbatim>\<open>execute\<close>.\<close>

definition same_run :: "iirfilt \<Rightarrow> iirfilt \<Rightarrow> bool" where
  "same_run q q' \<longleftrightarrow>
     q_type q' = q_type q \<and>
     (if q_type q = IIRFILT_TYPE_NORM
      then q_b q' = q_b q \<and> q_a q' = q_a q \<and> q_v q' = q_v q \<and> q_n q' = q_n q \<and>
           q_nb q' = q_nb q \<and> q_na q' = q_na q
      else q_nsos q' = q_nsos q \<and> q_qsos q' = q_qsos q)"

text \<open>
  The section the spec lets \<^verbatim>\<open>IIRFILTSOS(_create)\<close> build from the coefficient
  triples number \<open>i\<close> of \<open>B\<close> and \<open>A\<close>.
\<close>

definition norm_section :: "real list \<Rightarrow> real list \<Rightarrow> nat \<Rightarrow> iirfiltsos" where
  "norm_section B A i =
     \<lparr>s_b0 = B ! (3 * i) / A ! (3 * i), s_b1 = B ! (3 * i + 1) / A ! (3 * i),
      s_b2 = B ! (3 * i + 2) / A ! (3 * i), s_a0 = A ! (3 * i) / A ! (3 * i),
      s_a1 = A ! (3 * i + 1) / A ! (3 * i), s_a2 = A ! (3 * i + 2) / A ! (3 * i),
      s_v1 = 0, s_v2 = 0\<rparr>"

section \<open>Example structures\<close>

text \<open>An example of the uninitialised block handed to a constructor.\<close>

definition blank :: iirfilt where
  "blank = \<lparr>q_b = [], q_a = [], q_v = [], q_n = 7, q_nb = 0, q_na = 0,
            q_type = IIRFILT_TYPE_SOS, q_qsos = [], q_nsos = 5\<rparr>"

text \<open>A normal-form filter in the middle of a run.\<close>

definition example_norm :: iirfilt where
  "example_norm = \<lparr>q_b = [1, - 1], q_a = [1, - 1 / 2], q_v = [3, 4], q_n = 2, q_nb = 2,
                   q_na = 2, q_type = IIRFILT_TYPE_NORM, q_qsos = [], q_nsos = 0\<rparr>"

text \<open>A filter of two sections in the middle of a run.\<close>

definition example_sos :: iirfilt where
  "example_sos =
     \<lparr>q_b = [1, 2, 1, 1, 0, - 1], q_a = [1, 1 / 2, 0, 1, 0, 1 / 4], q_v = [], q_n = 4,
      q_nb = 0, q_na = 0, q_type = IIRFILT_TYPE_SOS,
      q_qsos = [\<lparr>s_b0 = 1, s_b1 = 2, s_b2 = 1, s_a0 = 1, s_a1 = 1 / 2, s_a2 = 0,
                 s_v1 = 2, s_v2 = 1\<rparr>,
                \<lparr>s_b0 = 1, s_b1 = 0, s_b2 = - 1, s_a0 = 1, s_a1 = 0, s_a2 = 1 / 4,
                 s_v1 = 4, s_v2 = 0\<rparr>],
      q_nsos = 2\<rparr>"

text \<open>The filter \<^verbatim>\<open>create_sos\<close> builds from \<open>B = [2, 0, 0]\<close> and \<open>A = [1, 0, 0]\<close>.\<close>

definition example_gain :: iirfilt where
  "example_gain =
     blank\<lparr>q_type := IIRFILT_TYPE_SOS, q_nsos := 1, q_n := 2, q_b := [2, 0, 0],
           q_a := [1, 0, 0],
           q_qsos := [\<lparr>s_b0 = 2, s_b1 = 0, s_b2 = 0, s_a0 = 1, s_a1 = 0, s_a2 = 0,
                       s_v1 = 0, s_v2 = 0\<rparr>]\<rparr>"

text \<open>The filter \<^verbatim>\<open>create\<close> builds from \<open>b = [1, -1]\<close> and \<open>a = [1, -1/2]\<close>.\<close>

definition example_fresh :: iirfilt where
  "example_fresh = blank\<lparr>q_nb := 2, q_na := 2, q_n := 2, q_type := IIRFILT_TYPE_NORM,
                         q_b := [1, - 1], q_a := [1, - 1 / 2], q_v := [0, 0]\<rparr>"

section \<open>Facts about the loops\<close>

lemma length_zero_fill: "length (zero_fill k w) = length w"
  by (induction k) simp_all

lemma zero_fill_nth:
  "i < length w \<Longrightarrow> zero_fill k w ! i = (if i < k then 0 else w ! i)"
  by (induction k) (auto simp: length_zero_fill nth_list_update less_Suc_eq)

lemma zero_fill_all: "length w = k \<Longrightarrow> zero_fill k w = replicate k 0"
  by (rule nth_equalityI) (simp_all add: length_zero_fill zero_fill_nth)

lemma store_div_Inr:
  "store_div cap src a0 k = Inr dst \<Longrightarrow>
     k \<le> cap \<and> k \<le> length src \<and> dst = map (\<lambda>x. x / a0) (take k src)"
proof (induction k arbitrary: dst)
  case 0
  then show ?case by simp
next
  case (Suc k)
  then obtain d where d: "store_div cap src a0 k = Inr d"
    by (auto split: sum.splits)
  with Suc.prems have ok: "k < cap" "k < length src" and dst: "dst = d @ [src ! k / a0]"
    by (auto split: if_splits)
  from Suc.IH [OF d] have "d = map (\<lambda>x. x / a0) (take k src)" by simp
  with ok dst show ?case
    by (simp add: take_Suc_conv_app_nth)
qed

lemma store_div_ok:
  "k \<le> cap \<Longrightarrow> k \<le> length src \<Longrightarrow>
     store_div cap src a0 k = Inr (map (\<lambda>x. x / a0) (take k src))"
  by (induction k) (simp_all add: take_Suc_conv_app_nth)

lemma store_div_Inl: "store_div cap src a0 k = Inl e \<Longrightarrow> e = MemoryFault"
  by (induction k) (auto split: sum.splits if_splits)

lemma store_div_overflow: "cap < k \<Longrightarrow> store_div cap src a0 k = Inl MemoryFault"
proof (induction k)
  case 0
  then show ?case by simp
next
  case (Suc k)
  show ?case
  proof (cases "cap < k")
    case True
    with Suc.IH show ?thesis by simp
  next
    case False
    with Suc.prems have "k = cap" by simp
    then show ?thesis by (auto split: sum.splits dest: store_div_Inl)
  qed
qed



lemma length_advance: "length (advance k w) = length w"
  by (induction k arbitrary: w) simp_all

lemma advance_nth:
  "k < length w \<Longrightarrow> i < length w \<Longrightarrow>
     advance k w ! i = (if 1 \<le> i \<and> i \<le> k then w ! (i - 1) else w ! i)"
proof (induction k arbitrary: w)
  case 0
  then show ?case by simp
next
  case (Suc k)
  let ?w = "w[Suc k := w ! k]"
  from Suc.prems have "k < length ?w" "i < length ?w" by simp_all
  from Suc.IH [OF this]
  have "advance (Suc k) w ! i = (if 1 \<le> i \<and> i \<le> k then ?w ! (i - 1) else ?w ! i)"
    by simp
  with Suc.prems show ?case
    by (auto simp: nth_list_update)
qed

lemma feedback_sum: "feedback ca w x k = x - (\<Sum>i = 1..<Suc k. ca ! i * w ! i)"
  by (induction k) simp_all

lemma feedforward_sum: "feedforward cb w k = (\<Sum>i = 0..<k. cb ! i * w ! i)"
  by (induction k) simp_all

lemma create_Inr:
  assumes "create m xb nb xa na = Inr q"
  shows "nb = na \<and> 1 \<le> nb \<and> nb \<le> length xb \<and> na \<le> length xa \<and>
         q_nb q = nb \<and> q_na q = na \<and> q_n q = max na nb \<and>
         q_type q = IIRFILT_TYPE_NORM \<and>
         q_b q = map (\<lambda>x. x / xa ! 0) (take nb xb) \<and>
         q_a q = map (\<lambda>x. x / xa ! 0) (take na xa) \<and>
         q_v q = replicate (max na nb) 0 \<and>
         q_qsos q = q_qsos m \<and> q_nsos q = q_nsos m"
proof -
  from assms have pos: "nb \<noteq> 0" "na \<noteq> 0"
    by (auto simp: create_def split: if_splits)
  from assms pos obtain a0 rest where xa: "xa = a0 # rest"
    by (cases xa) (auto simp: create_def)
  from assms pos xa obtain qb where qb: "store_div na xb a0 nb = Inr qb"
    by (auto simp: create_def Let_def split: sum.splits)
  from assms pos xa qb obtain qa where qa: "store_div nb xa a0 na = Inr qa"
    by (auto simp: create_def Let_def split: sum.splits)
  from store_div_Inr [OF qb] store_div_Inr [OF qa]
  have le: "nb \<le> na" "na \<le> nb" "nb \<le> length xb" "na \<le> length xa"
    and qbe: "qb = map (\<lambda>x. x / a0) (take nb xb)"
    and qae: "qa = map (\<lambda>x. x / a0) (take na xa)"
    by simp_all
  from assms pos xa qb qa
  have q: "q = clear (m\<lparr>q_nb := nb, q_na := na, q_n := (if nb < na then na else nb),
                         q_type := IIRFILT_TYPE_NORM, q_b := qb, q_a := qa,
                         q_v := replicate (if nb < na then na else nb) 0\<rparr>)"
    by (auto simp: create_def Let_def)
  from le have eq: "nb = na" by simp
  show ?thesis
    using pos le qbe qae xa unfolding q eq
    by (simp add: clear_def zero_fill_all max_def)
qed


lemma create_equal_lengths:
  assumes "1 \<le> k" "length xb = k" "length xa = k"
  shows "\<exists>q. create m xb k xa k = Inr q \<and>
           q_nb q = k \<and> q_na q = k \<and> q_n q = k \<and> q_type q = IIRFILT_TYPE_NORM \<and>
           q_b q = map (\<lambda>x. x / xa ! 0) xb \<and> q_a q = map (\<lambda>x. x / xa ! 0) xa \<and>
           q_v q = replicate k 0"
proof -
  from assms obtain a0 rest where xa: "xa = a0 # rest"
    by (cases xa) auto
  have "store_div k xb a0 k = Inr (map (\<lambda>x. x / a0) (take k xb))"
    "store_div k xa a0 k = Inr (map (\<lambda>x. x / a0) (take k xa))"
    using assms by (simp_all add: store_div_ok)
  with assms xa show ?thesis
    by (simp add: create_def Let_def clear_def zero_fill_all del: store_div.simps)
qed

lemma create_unequal_lengths:
  assumes "nb \<noteq> na"
  shows "isl (create m xb nb xa na)"
proof (cases "create m xb nb xa na")
  case (Inl e)
  then show ?thesis by simp
next
  case (Inr q)
  from create_Inr [OF Inr] assms show ?thesis by simp
qed

section \<open>Claims on the normal form\<close>

text \<open>
  Claim C3 (create stores \<open>b[i]/a[0]\<close> and \<open>a[i]/a[0]\<close> for every numerator of length
  \<open>nb \<ge> 1\<close> and denominator of length \<open>na \<ge> 1\<close> with \<open>a[0] \<noteq> 0\<close>) does not hold of the
  code when the two lengths differ: the numerator array is allocated with \<open>na\<close> cells and
  the denominator array with \<open>nb\<close> cells, so the longer of the two is stored beyond its
  allocation. Both orders, at lengths 2 and 1 with \<open>a[0] = 1\<close>.
\<close>

theorem create_unequal_lengths_faults:
  "create m [1, 2] 2 [1] 1 = Inl MemoryFault \<and> create m [1] 1 [1, 2] 2 = Inl MemoryFault"
  by (simp add: create_def Let_def numeral_2_eq_2)

text \<open>
  Claim C9: for every \<open>alpha\<close>, \<^verbatim>\<open>create_dc_blocker(alpha)\<close> returns a valid
  normal-form filter of length 2 with numerator coefficients \<open>[1, -1]\<close>, denominator
  coefficients \<open>[1, alpha - 1]\<close> and a zero state. From any state \<open>[s0, s1]\<close> it
  computes \<open>w = x + (1 - alpha) * s0\<close> and returns \<open>y = w - s0\<close>, the recursion of
  \<open>H(z) = (1 - z^-1) / (1 - (1 - alpha) z^-1)\<close>.
\<close>

theorem create_dc_blocker_coefficients:
  "\<exists>q. create_dc_blocker m alpha = Inr q \<and> valid_norm q \<and>
       q_type q = IIRFILT_TYPE_NORM \<and> q_n q = 2 \<and> q_nb q = 2 \<and> q_na q = 2 \<and>
       q_b q = [1, - 1] \<and> q_a q = [1, alpha - 1] \<and> q_v q = [0, 0] \<and>
       (\<forall>s0 s1 x. execute (q\<lparr>q_v := [s0, s1]\<rparr>) x =
          (q\<lparr>q_v := [x + (1 - alpha) * s0, s0]\<rparr>, (x + (1 - alpha) * s0) - s0))"
proof -
  from create_equal_lengths [of 2 "[1, - 1]" "[1, - 1 + alpha]" m]
  obtain q where c: "create m [1, - 1] 2 [1, - 1 + alpha] 2 = Inr q"
    and f: "q_nb q = 2" "q_na q = 2" "q_n q = 2" "q_type q = IIRFILT_TYPE_NORM"
      "q_b q = [1, - 1]" "q_a q = [1, alpha - 1]" "q_v q = [0, 0]"
    by (auto simp: numeral_2_eq_2)
  from f have v: "valid_norm q"
    by (simp add: valid_norm_def)
  have e: "execute (q\<lparr>q_v := [s0, s1]\<rparr>) x =
          (q\<lparr>q_v := [x + (1 - alpha) * s0, s0]\<rparr>, (x + (1 - alpha) * s0) - s0)" for s0 s1 x
    using f by (simp add: execute_def execute_norm_def Let_def numeral_2_eq_2 algebra_simps)
  from c f v e show ?thesis
    by (auto simp: create_dc_blocker_def Let_def)
qed

text \<open>
  Claim C1: on a validly constructed normal-form filter, \<^verbatim>\<open>execute_norm\<close> with
  input \<open>x\<close> shifts the buffer by one place (cell \<open>i\<close> receives the old cell \<open>i - 1\<close>),
  stores \<open>v[0] = x - \<Sum>i = 1..na-1. a[i] * v[i]\<close> and returns
  \<open>y = \<Sum>i = 0..nb-1. b[i] * v[i]\<close>, both sums over the updated buffer.
\<close>

theorem execute_norm_spec:
  assumes "valid_norm q" and "execute_norm q x = (q', y)"
  shows "length (q_v q') = q_n q \<and>
         (\<forall>i. 1 \<le> i \<and> i < q_n q \<longrightarrow> q_v q' ! i = q_v q ! (i - 1)) \<and>
         q_v q' ! 0 = x - (\<Sum>i = 1..<q_na q. q_a q ! i * q_v q' ! i) \<and>
         y = (\<Sum>i = 0..<q_nb q. q_b q ! i * q_v q' ! i)"
proof -
  let ?w = "advance (q_n q - 1) (q_v q)"
  let ?v0 = "feedback (q_a q) ?w x (q_na q - 1)"
  from assms(1) have len: "length (q_v q) = q_n q" and n: "1 \<le> q_n q"
    and na: "1 \<le> q_na q" "q_na q \<le> q_n q"
    by (auto simp: valid_norm_def)
  from assms(2) have v': "q_v q' = ?w[0 := ?v0]"
    and y: "y = feedforward (q_b q) (?w[0 := ?v0]) (q_nb q)"
    by (auto simp: execute_norm_def Let_def)
  have lw: "length ?w = q_n q"
    by (simp add: length_advance len)
  have shift: "q_v q' ! i = q_v q ! (i - 1)" if "1 \<le> i" "i < q_n q" for i
    using that len n by (auto simp: v' advance_nth)
  have "?v0 = x - (\<Sum>i = 1..<q_na q. q_a q ! i * ?w ! i)"
    using na by (simp add: feedback_sum)
  also have "(\<Sum>i = 1..<q_na q. q_a q ! i * ?w ! i) =
             (\<Sum>i = 1..<q_na q. q_a q ! i * q_v q' ! i)"
    by (rule sum.cong) (simp_all add: v')
  finally have "q_v q' ! 0 = x - (\<Sum>i = 1..<q_na q. q_a q ! i * q_v q' ! i)"
    using lw n by (simp add: v')
  moreover have "y = (\<Sum>i = 0..<q_nb q. q_b q ! i * q_v q' ! i)"
    by (simp add: y v' feedforward_sum)
  ultimately show ?thesis
    using shift lw by (simp add: v')
qed

theorem execute_norm_spec_witness:
  "valid_norm example_norm \<and>
   execute_norm example_norm 1 = (example_norm\<lparr>q_v := [5 / 2, 3]\<rparr>, - 1 / 2) \<and>
   q_v (example_norm\<lparr>q_v := [5 / 2, 3]\<rparr>) ! 1 = q_v example_norm ! 0"
proof -
  have v: "valid_norm example_norm"
    by (simp add: valid_norm_def example_norm_def)
  have e: "execute_norm example_norm 1 = (example_norm\<lparr>q_v := [5 / 2, 3]\<rparr>, - 1 / 2)"
    by (simp add: execute_norm_def example_norm_def Let_def numeral_2_eq_2)
  from execute_norm_spec [OF v e] show ?thesis
    using v e by (simp add: example_norm_def)
qed




section \<open>Facts about the section loops\<close>

lemma iirfiltsos_execute_coeffs: "sos_coeffs (fst (iirfiltsos_execute s x)) = sos_coeffs s"
  by (simp add: iirfiltsos_execute_def sos_coeffs_def Let_def)

lemma map_update_same:
  assumes "f y = f (xs ! i)"
  shows "map f (xs[i := y]) = map f xs"
proof (cases "i < length xs")
  case True
  with assms show ?thesis
    by (simp add: map_update list_update_same_conv)
next
  case False
  then show ?thesis
    by (simp add: list_update_beyond)
qed

lemma run_sections_coeffs:
  "map sos_coeffs (fst (run_sections k ss t0 t1)) = map sos_coeffs ss"
proof (induction k)
  case 0
  then show ?case by simp
next
  case (Suc k)
  obtain ss' u0 u1 where r: "run_sections k ss t0 t1 = (ss', u0, u1)"
    by (cases "run_sections k ss t0 t1") auto
  obtain s' y where e: "iirfiltsos_execute (ss' ! k) u0 = (s', y)"
    by (cases "iirfiltsos_execute (ss' ! k) u0") auto
  have "sos_coeffs s' = sos_coeffs (ss' ! k)"
    using iirfiltsos_execute_coeffs [of "ss' ! k" u0] e by simp
  then have "map sos_coeffs (ss'[k := s']) = map sos_coeffs ss'"
    by (rule map_update_same)
  with Suc r e show ?case by simp
qed

lemma run_sections_chain:
  assumes "k \<le> length ss" and "run_sections k ss x t1 = (ss', u0, u1)"
  shows "length ss' = length ss \<and> u0 = sos_chain ss x k \<and> (0 < k \<longrightarrow> u1 = sos_chain ss x k) \<and>
         (\<forall>i<k. ss' ! i = fst (iirfiltsos_execute (ss ! i) (sos_chain ss x i))) \<and>
         (\<forall>i. k \<le> i \<longrightarrow> ss' ! i = ss ! i)"
  using assms
proof (induction k arbitrary: ss' u0 u1)
  case 0
  then show ?case by simp
next
  case (Suc k)
  obtain p v0 v1 where r: "run_sections k ss x t1 = (p, v0, v1)"
    by (cases "run_sections k ss x t1") auto
  obtain s' y where e: "iirfiltsos_execute (p ! k) v0 = (s', y)"
    by (cases "iirfiltsos_execute (p ! k) v0") auto
  from Suc.prems have k: "k \<le> length ss" "k < length ss" by simp_all
  from Suc.IH [OF k(1) r]
  have len: "length p = length ss" and v0: "v0 = sos_chain ss x k"
    and prev: "\<forall>i<k. p ! i = fst (iirfiltsos_execute (ss ! i) (sos_chain ss x i))"
    and rest: "\<forall>i. k \<le> i \<longrightarrow> p ! i = ss ! i"
    by simp_all
  from Suc.prems(2) r e have res: "ss' = p[k := s']" "u0 = y" "u1 = y"
    by simp_all
  from rest have pk: "p ! k = ss ! k" by simp
  from e pk v0 have y: "y = sos_chain ss x (Suc k)"
    and s': "s' = fst (iirfiltsos_execute (ss ! k) (sos_chain ss x k))"
    by simp_all
  show ?case
    using len k prev rest y s' unfolding res
    by (auto simp: nth_list_update less_Suc_eq)
qed

lemma groupdelay_loop_sum:
  "groupdelay_loop gs ss fc k = (\<Sum>i = 0..<k. gs (ss ! i) fc) - 2 * real k"
  by (induction k) (simp_all add: algebra_simps)

section \<open>Claims on the second-order-sections form\<close>

text \<open>
  Claim C2: on a validly constructed filter of \<open>k\<close> sections, \<^verbatim>\<open>execute_sos\<close> feeds
  the input \<open>x\<close> to the first section, feeds each section with the output of the one
  before it (every section moving to the state its own execute leaves), and returns the
  output of the last section.
\<close>

theorem execute_sos_cascade:
  assumes "valid_sos q" and "execute_sos q x = (q', y)"
  shows "sos_chain (q_qsos q) x 0 = x \<and>
         (\<forall>i<q_nsos q. q_qsos q' ! i =
              fst (iirfiltsos_execute (q_qsos q ! i) (sos_chain (q_qsos q) x i)) \<and>
            sos_chain (q_qsos q) x (Suc i) =
              snd (iirfiltsos_execute (q_qsos q ! i) (sos_chain (q_qsos q) x i))) \<and>
         y = sos_chain (q_qsos q) x (q_nsos q) \<and>
         length (q_qsos q') = q_nsos q"
proof -
  obtain ss u0 u1 where r: "run_sections (q_nsos q) (q_qsos q) x 0 = (ss, u0, u1)"
    by (cases "run_sections (q_nsos q) (q_qsos q) x 0") auto
  from assms(1) have len: "q_nsos q \<le> length (q_qsos q)" "length (q_qsos q) = q_nsos q"
    and pos: "0 < q_nsos q"
    by (simp_all add: valid_sos_def)
  from assms(2) r have q': "q_qsos q' = ss" "y = u1"
    by (auto simp: execute_sos_def)
  from run_sections_chain [OF len(1) r] pos len(2) show ?thesis
    unfolding q' by simp
qed

theorem execute_sos_cascade_witness:
  "valid_sos example_sos \<and>
   execute_sos example_sos 1 =
     (example_sos\<lparr>q_qsos := [(q_qsos example_sos ! 0)\<lparr>s_v2 := 2, s_v1 := 0\<rparr>,
                              (q_qsos example_sos ! 1)\<lparr>s_v2 := 4, s_v1 := 5\<rparr>]\<rparr>, 5) \<and>
   sos_chain (q_qsos example_sos) 1 1 = 5 \<and>
   sos_chain (q_qsos example_sos) 1 2 = 5"
proof -
  have v: "valid_sos example_sos"
    by (simp add: valid_sos_def example_sos_def)
  have e: "execute_sos example_sos 1 =
     (example_sos\<lparr>q_qsos := [(q_qsos example_sos ! 0)\<lparr>s_v2 := 2, s_v1 := 0\<rparr>,
                              (q_qsos example_sos ! 1)\<lparr>s_v2 := 4, s_v1 := 5\<rparr>]\<rparr>, 5)"
    by (simp add: execute_sos_def example_sos_def iirfiltsos_execute_def Let_def numeral_2_eq_2)
  have n: "q_nsos example_sos = 2"
    by (simp add: example_sos_def)
  from execute_sos_cascade [OF v e] have
    "5 = sos_chain (q_qsos example_sos) 1 (q_nsos example_sos)"
    by simp
  moreover have "sos_chain (q_qsos example_sos) 1 1 = 5"
    by (simp add: example_sos_def iirfiltsos_execute_def Let_def)
  ultimately show ?thesis
    using v e n by simp
qed

text \<open>
  Claim C5: on a validly constructed filter of \<open>k\<close> sections, the group delay at \<open>fc\<close>
  is the sum of the sections' group delays at \<open>fc\<close> minus \<open>2 * k\<close>, whatever function
  computes the group delay of one section (arithmetic over the reals).
\<close>

theorem groupdelay_sos_additive:
  assumes "valid_sos q"
  shows "groupdelay gd_sos gd_tf q fc =
           (\<Sum>s\<leftarrow>q_qsos q. gd_sos s fc) - 2 * real (q_nsos q)"
proof -
  from assms have t: "q_type q = IIRFILT_TYPE_SOS" and len: "length (q_qsos q) = q_nsos q"
    by (simp_all add: valid_sos_def)
  have "(\<Sum>s\<leftarrow>q_qsos q. gd_sos s fc) = (\<Sum>i = 0..<q_nsos q. gd_sos (q_qsos q ! i) fc)"
    using len by (simp add: sum_list_sum_nth)
  with t show ?thesis
    by (simp add: groupdelay_def groupdelay_loop_sum)
qed

theorem groupdelay_sos_additive_witness:
  "valid_sos example_sos \<and>
   groupdelay (\<lambda>s fc. s_v1 s + fc) (\<lambda>cb nb ca na fc. 0) example_sos 3 = (5 + 7) - 2 * 2"
proof -
  have v: "valid_sos example_sos"
    by (simp add: valid_sos_def example_sos_def)
  from groupdelay_sos_additive [OF v, of "\<lambda>s fc. s_v1 s + fc" "\<lambda>cb nb ca na fc. 0" 3]
  show ?thesis using v by (simp add: example_sos_def)
qed

text \<open>
  Claim C10: \<^verbatim>\<open>execute\<close>, in either form, changes nothing but the state: the arrays
  \<open>b\<close> and \<open>a\<close>, the counts \<open>nb\<close>, \<open>na\<close>, \<open>n\<close> and \<open>nsos\<close>, the form tag and the
  coefficients of every section are the same before and after. The normal form leaves the
  sections alone and the second-order-sections form leaves the buffer alone.
\<close>

theorem execute_frame:
  "same_coefficients q (fst (execute_norm q x)) \<and> q_qsos (fst (execute_norm q x)) = q_qsos q \<and>
   same_coefficients q (fst (execute_sos q x)) \<and> q_v (fst (execute_sos q x)) = q_v q \<and>
   same_coefficients q (fst (execute q x))"
proof -
  have n: "same_coefficients q (fst (execute_norm q x))"
    "q_qsos (fst (execute_norm q x)) = q_qsos q"
    by (simp_all add: same_coefficients_def execute_norm_def Let_def)
  obtain ss u0 u1 where r: "run_sections (q_nsos q) (q_qsos q) x 0 = (ss, u0, u1)"
    by (cases "run_sections (q_nsos q) (q_qsos q) x 0") auto
  have "map sos_coeffs ss = map sos_coeffs (q_qsos q)"
    using run_sections_coeffs [of "q_nsos q" "q_qsos q" x 0] r by simp
  with r have s: "same_coefficients q (fst (execute_sos q x))"
    "q_v (fst (execute_sos q x)) = q_v q"
    by (simp_all add: same_coefficients_def execute_sos_def)
  from n s show ?thesis
    by (simp add: execute_def)
qed




lemma cexpf_term_zero: "cexpf_term 0 k = 1"
  by (simp add: cexpf_term_def)

lemma freqresponse_sos_independent_of_a:
  "freqresponse_sos (q\<lparr>q_a := ca\<rparr>) fc = freqresponse_sos q fc"
  by (simp add: freqresponse_sos_def)

text \<open>
  Claim C4 (the frequency response of a second-order-sections filter is the product over
  the sections of numerator DFT sum over denominator DFT sum) does not hold of the code:
  the loop takes both coefficient pointers from the numerator array, so every factor is
  \<open>Hb / Hb\<close>. On the filter built from \<open>B = [2, 0, 0]\<close>, \<open>A = [1, 0, 0]\<close> the code
  returns 1 at \<open>fc = 0\<close>, where the product of the claim is 2.
\<close>

theorem freqresponse_sos_ignores_denominator:
  "create_sos blank [2, 0, 0] [1, 0, 0] 1 = Inr example_gain \<and>
   freqresponse_sos example_gain 0 = 1 \<and> freqresponse_spec example_gain 0 = 2"
proof -
  have c: "create_sos blank [2, 0, 0] [1, 0, 0] 1 = Inr example_gain"
    by (simp add: create_sos_def example_gain_def Let_def load3_def iirfiltsos_create_def)
  have f: "freqresponse_sos example_gain 0 = 1"
    by (simp add: freqresponse_sos_def example_gain_def Let_def cexpf_term_zero)
  have s: "freqresponse_spec example_gain 0 = 2"
    by (simp add: freqresponse_spec_def example_gain_def dft3_def cexpf_term_zero
        eval_nat_numeral)
  from c f s show ?thesis by simp
qed




section \<open>Facts about the constructors\<close>

lemma load3_Inr:
  "load3 arr i = Inr t \<Longrightarrow>
     (3 * i) mod 2 ^ 32 < length arr \<and> (3 * i + 1) mod 2 ^ 32 < length arr \<and>
     (3 * i + 2) mod 2 ^ 32 < length arr \<and>
     t = [arr ! ((3 * i) mod 2 ^ 32), arr ! ((3 * i + 1) mod 2 ^ 32),
          arr ! ((3 * i + 2) mod 2 ^ 32)]"
  by (auto simp: load3_def Let_def split: if_splits)

lemma create_sections_Inr:
  "create_sections qb qa k = Inr ss \<Longrightarrow>
     length ss = k \<and>
     (\<forall>i<k. \<exists>ta bt. load3 qa i = Inr ta \<and> load3 qb i = Inr bt \<and>
                iirfiltsos_create bt ta = Inr (ss ! i))"
proof (induction k arbitrary: ss)
  case 0
  then show ?case by simp
next
  case (Suc k)
  from Suc.prems obtain p ta bt s where p: "create_sections qb qa k = Inr p"
    and l: "load3 qa k = Inr ta" "load3 qb k = Inr bt" "iirfiltsos_create bt ta = Inr s"
    and ss: "ss = p @ [s]"
    by (auto split: sum.splits)
  from Suc.IH [OF p] have len: "length p = k"
    and prev: "\<forall>i<k. \<exists>ta bt. load3 qa i = Inr ta \<and> load3 qb i = Inr bt \<and>
                  iirfiltsos_create bt ta = Inr (p ! i)"
    by simp_all
  show ?case
    using len prev l unfolding ss
    by (auto simp: nth_append less_Suc_eq)
qed

lemma create_sections_ok:
  assumes "\<forall>i<k. \<exists>ta bt s. load3 qa i = Inr ta \<and> load3 qb i = Inr bt \<and>
                iirfiltsos_create bt ta = Inr s"
  shows "\<exists>ss. create_sections qb qa k = Inr ss"
  using assms
proof (induction k)
  case 0
  then show ?case by simp
next
  case (Suc k)
  then obtain p where p: "create_sections qb qa k = Inr p" by auto
  from Suc.prems obtain ta bt s where "load3 qa k = Inr ta" "load3 qb k = Inr bt"
    "iirfiltsos_create bt ta = Inr s"
    by blast
  with p show ?case by simp
qed

lemma triple_index:
  fixes c :: nat
  shows "3 * (c div 3) = c \<or> 3 * (c div 3) + 1 = c \<or> 3 * (c div 3) + 2 = c"
  by presburger

lemma wrapped_count_reached:
  fixes k :: nat
  assumes "2 ^ 32 \<le> 3 * k"
  shows "\<exists>i<k. (3 * i) mod 2 ^ 32 \<ge> (3 * k) mod 2 ^ 32 \<or>
               (3 * i + 1) mod 2 ^ 32 \<ge> (3 * k) mod 2 ^ 32 \<or>
               (3 * i + 2) mod 2 ^ 32 \<ge> (3 * k) mod 2 ^ 32"
proof -
  define c :: nat where "c = (3 * k) mod 2 ^ 32"
  have c: "c < 2 ^ 32" by (simp add: c_def)
  with assms have "c < 3 * k" by linarith
  then have i: "c div 3 < k" by (simp add: div_less_iff_less_mult)
  from triple_index [of c] c
  have "(3 * (c div 3)) mod 2 ^ 32 = c \<or> (3 * (c div 3) + 1) mod 2 ^ 32 = c \<or>
        (3 * (c div 3) + 2) mod 2 ^ 32 = c"
    by (metis mod_less)
  with i show ?thesis
    unfolding c_def [symmetric] by (metis order_refl)
qed


lemma section_of_triple:
  assumes "3 * i + 2 < c" "c < 2 ^ 32" "c \<le> length B" "c \<le> length A"
  shows "load3 (take c A) i = Inr [A ! (3 * i), A ! (3 * i + 1), A ! (3 * i + 2)]"
    and "load3 (take c B) i = Inr [B ! (3 * i), B ! (3 * i + 1), B ! (3 * i + 2)]"
    and "iirfiltsos_create [B ! (3 * i), B ! (3 * i + 1), B ! (3 * i + 2)]
           [A ! (3 * i), A ! (3 * i + 1), A ! (3 * i + 2)] =
         (if A ! (3 * i) = 0 then Inl SectionError else Inr (norm_section B A i))"
  using assms by (simp_all add: load3_def Let_def iirfiltsos_create_def norm_section_def)

lemma create_sos_Inr:
  assumes "create_sos m B A nsos = Inr q"
  shows "1 \<le> nsos \<and> 3 * nsos < 2 ^ 32 \<and> 3 * nsos \<le> length B \<and> 3 * nsos \<le> length A \<and>
         q_type q = IIRFILT_TYPE_SOS \<and> q_nsos q = nsos \<and> q_n q = 2 * nsos \<and>
         q_b q = take (3 * nsos) B \<and> q_a q = take (3 * nsos) A \<and>
         length (q_qsos q) = nsos \<and>
         (\<forall>i<nsos. A ! (3 * i) \<noteq> 0 \<and> q_qsos q ! i = norm_section B A i)"
proof -
  define c :: nat where "c = (3 * nsos) mod 2 ^ 32"
  from assms have pos: "nsos \<noteq> 0"
    by (auto simp: create_sos_def split: if_splits)
  from assms pos have len: "c \<le> length B" "c \<le> length A"
    by (auto simp: create_sos_def Let_def c_def split: if_splits)
  from assms pos len obtain ss where ss: "create_sections (take c B) (take c A) nsos = Inr ss"
    and q: "q = m\<lparr>q_type := IIRFILT_TYPE_SOS, q_nsos := nsos, q_n := (nsos * 2) mod 2 ^ 32,
                  q_b := take c B, q_a := take c A, q_qsos := ss\<rparr>"
    by (auto simp: create_sos_def Let_def c_def split: if_splits sum.splits)
  from create_sections_Inr [OF ss] have lss: "length ss = nsos"
    and each: "\<forall>i<nsos. \<exists>ta bt. load3 (take c A) i = Inr ta \<and> load3 (take c B) i = Inr bt \<and>
                  iirfiltsos_create bt ta = Inr (ss ! i)"
    by simp_all
  have small: "3 * nsos < 2 ^ 32"
  proof (rule ccontr)
    assume "\<not> 3 * nsos < 2 ^ 32"
    then have "2 ^ 32 \<le> 3 * nsos" by simp
    from wrapped_count_reached [OF this] obtain i where i: "i < nsos"
      and over: "(3 * i) mod 2 ^ 32 \<ge> c \<or> (3 * i + 1) mod 2 ^ 32 \<ge> c \<or>
                 (3 * i + 2) mod 2 ^ 32 \<ge> c"
      unfolding c_def by blast
    from each i obtain ta where "load3 (take c A) i = Inr ta" by blast
    from load3_Inr [OF this] len have
      "(3 * i) mod 2 ^ 32 < c" "(3 * i + 1) mod 2 ^ 32 < c" "(3 * i + 2) mod 2 ^ 32 < c"
      by simp_all
    with over show False by linarith
  qed
  then have c: "c = 3 * nsos" by (simp add: c_def)
  have sec: "A ! (3 * i) \<noteq> 0 \<and> ss ! i = norm_section B A i" if "i < nsos" for i
  proof -
    from that c have i: "3 * i + 2 < c" by simp
    from small c have c32: "c < 2 ^ 32" by simp
    from each that obtain ta bt where l: "load3 (take c A) i = Inr ta"
      "load3 (take c B) i = Inr bt" "iirfiltsos_create bt ta = Inr (ss ! i)"
      by blast
    from l section_of_triple [OF i c32 len] show ?thesis
      by (auto split: if_splits)
  qed
  from small have n: "(nsos * 2) mod 2 ^ 32 = 2 * nsos" by simp
  show ?thesis
    using pos small len lss sec unfolding q n c [symmetric]
    by (simp add: c)
qed

lemma create_sos_total:
  assumes "1 \<le> nsos" "3 * nsos < 2 ^ 32" "3 * nsos \<le> length B" "3 * nsos \<le> length A"
  shows "(\<exists>q. create_sos m B A nsos = Inr q) \<longleftrightarrow> (\<forall>i<nsos. A ! (3 * i) \<noteq> 0)"
proof
  assume "\<exists>q. create_sos m B A nsos = Inr q"
  then obtain q where "create_sos m B A nsos = Inr q" ..
  from create_sos_Inr [OF this] show "\<forall>i<nsos. A ! (3 * i) \<noteq> 0" by simp
next
  assume nz: "\<forall>i<nsos. A ! (3 * i) \<noteq> 0"
  let ?c = "3 * nsos"
  have "\<forall>i<nsos. \<exists>ta bt s. load3 (take ?c A) i = Inr ta \<and> load3 (take ?c B) i = Inr bt \<and>
          iirfiltsos_create bt ta = Inr s"
  proof (intro allI impI)
    fix i assume i: "i < nsos"
    then have "3 * i + 2 < ?c" by simp
    from section_of_triple [OF this assms(2-4)] nz i
    show "\<exists>ta bt s. load3 (take ?c A) i = Inr ta \<and> load3 (take ?c B) i = Inr bt \<and>
            iirfiltsos_create bt ta = Inr s"
      by simp
  qed
  from create_sections_ok [OF this] obtain ss where
    "create_sections (take ?c B) (take ?c A) nsos = Inr ss" ..
  with assms show "\<exists>q. create_sos m B A nsos = Inr q"
    by (simp add: create_sos_def Let_def)
qed


lemma create_sections_Inl: "create_sections qb qa k = Inl e \<Longrightarrow> e \<noteq> ConfigError"
  by (induction k)
     (auto simp: load3_def iirfiltsos_create_def Let_def split: sum.splits if_splits)

lemma create_sos_ConfigError: "create_sos m B A nsos = Inl ConfigError \<longleftrightarrow> nsos = 0"
  by (auto simp: create_sos_def Let_def split: sum.splits dest: create_sections_Inl)

lemma create_ConfigError: "create m xb nb xa na = Inl ConfigError \<longleftrightarrow> nb = 0 \<or> na = 0"
proof (cases "nb = 0 \<or> na = 0")
  case True
  then show ?thesis by (auto simp: create_def)
next
  case False
  have "create m xb nb xa na \<noteq> Inl ConfigError"
  proof
    assume c: "create m xb nb xa na = Inl ConfigError"
    with False obtain a0 rest where xa: "xa = a0 # rest"
      by (cases xa) (auto simp: create_def Let_def)
    from c False xa show False
      by (auto simp: create_def Let_def split: sum.splits dest: store_div_Inl)
  qed
  with False show ?thesis by simp
qed

section \<open>Claims on construction\<close>

text \<open>
  Claim C8 (\<^verbatim>\<open>create\<close> fails if and only if \<open>nb = 0\<close> or \<open>na = 0\<close>, and otherwise
  sets \<open>n = max(na, nb)\<close> and a zero buffer of \<open>n\<close> cells) does not hold of the code when
  the two lengths differ, because the two allocation sizes are exchanged: with three numerator and two
  denominator coefficients, neither count zero, the numerator is stored beyond its
  allocation of \<open>na = 2\<close> cells, and the constructor neither exits with its construction
  error nor returns a filter of length 3.
\<close>

theorem create_longer_numerator_returns_no_filter:
  "create m [1, 2, 1] 3 [1, - 1 / 2] 2 = Inl MemoryFault \<and>
   isl (create m [1, 2, 1] 3 [1, - 1 / 2] 2) \<and>
   create m [1, 2, 1] 3 [1, - 1 / 2] 2 \<noteq> Inl ConfigError"
  by (simp add: create_def Let_def eval_nat_numeral)

text \<open>
  The constructors' own error exits are exactly the ones of their first lines
  (\<open>create_ConfigError\<close>, \<open>create_sos_ConfigError\<close> above), and every filter
  \<^verbatim>\<open>create_sos\<close> returns has \<open>nsos\<close> sections and \<open>n = 2 * nsos\<close> (\<open>create_sos_Inr\<close>).
\<close>

section \<open>Facts about the loop-filter constructor\<close>

text \<open>
  \<^verbatim>\<open>create_pll\<close> exits with the configuration error exactly on the three range
  checks. Inside the ranges it is \<^verbatim>\<open>create_sos\<close> on the designed triples with one
  section; with the section constructor of the spec, it returns a filter exactly when
  the designed \<open>af[0]\<close> is not zero, and that filter has one section and length 2. The
  design routine is outside the sources at hand, so nothing is derived here about the
  value of \<open>af[0]\<close>.
\<close>

lemma create_pll_ConfigError:
  "create_pll lag m w zeta K = Inl ConfigError \<longleftrightarrow>
     w \<le> 0 \<or> w \<ge> 1 \<or> zeta \<le> 0 \<or> zeta \<ge> 1 \<or> K \<le> 0"
proof (cases "w \<le> 0 \<or> w \<ge> 1 \<or> zeta \<le> 0 \<or> zeta \<ge> 1 \<or> K \<le> 0")
  case True
  then show ?thesis by (auto simp: create_pll_def)
next
  case False
  then have "create_pll lag m w zeta K \<noteq> Inl ConfigError"
    by (simp add: create_pll_def create_sos_ConfigError split: prod.splits)
  with False show ?thesis by simp
qed

lemma create_pll_in_ranges:
  assumes "0 < w" "w < 1" "0 < zeta" "zeta < 1" "0 < K"
    and "lag w zeta K = ((bf0, bf1, bf2), (af0, af1, af2))"
  shows "create_pll lag m w zeta K = create_sos m [bf0, bf1, bf2] [af0, af1, af2] 1"
    and "(\<exists>q. create_pll lag m w zeta K = Inr q) \<longleftrightarrow> af0 \<noteq> 0"
    and "create_pll lag m w zeta K = Inr q \<Longrightarrow>
           q_type q = IIRFILT_TYPE_SOS \<and> q_nsos q = 1 \<and> q_n q = 2 \<and>
           q_qsos q = [norm_section [bf0, bf1, bf2] [af0, af1, af2] 0]"
proof -
  show cp: "create_pll lag m w zeta K = create_sos m [bf0, bf1, bf2] [af0, af1, af2] 1"
    using assms by (simp add: create_pll_def)
  have "(\<exists>q. create_sos m [bf0, bf1, bf2] [af0, af1, af2] 1 = Inr q) \<longleftrightarrow>
        (\<forall>i<1. [af0, af1, af2] ! (3 * i) \<noteq> 0)"
    by (rule create_sos_total) simp_all
  then show "(\<exists>q. create_pll lag m w zeta K = Inr q) \<longleftrightarrow> af0 \<noteq> 0"
    unfolding cp by simp
  assume "create_pll lag m w zeta K = Inr q"
  then have q: "create_sos m [bf0, bf1, bf2] [af0, af1, af2] 1 = Inr q"
    by (simp add: cp)
  from create_sos_Inr [OF q] have "length (q_qsos q) = 1"
    "q_qsos q ! 0 = norm_section [bf0, bf1, bf2] [af0, af1, af2] 0"
    "q_type q = IIRFILT_TYPE_SOS \<and> q_nsos q = 1 \<and> q_n q = 2"
    by simp_all
  then show "q_type q = IIRFILT_TYPE_SOS \<and> q_nsos q = 1 \<and> q_n q = 2 \<and>
           q_qsos q = [norm_section [bf0, bf1, bf2] [af0, af1, af2] 0]"
    by (cases "q_qsos q") simp_all
qed

section \<open>Facts about clearing\<close>

lemma length_clear_sections: "length (clear_sections k ss) = length ss"
  by (induction k) (simp_all add: Let_def)

lemma clear_sections_nth:
  "i < length ss \<Longrightarrow>
     clear_sections k ss ! i = (if i < k then iirfiltsos_clear (ss ! i) else ss ! i)"
  by (induction k arbitrary: i)
     (auto simp: Let_def length_clear_sections nth_list_update less_Suc_eq)

lemma clear_sections_all: "length ss = k \<Longrightarrow> clear_sections k ss = map iirfiltsos_clear ss"
  by (rule nth_equalityI) (simp_all add: length_clear_sections clear_sections_nth)

lemma replicate_zero: "list_all (\<lambda>x. x = (0::real)) w \<Longrightarrow> w = replicate (length w) 0"
  by (induction w) simp_all

lemma cleared_section:
  assumes "sos_coeffs s' = sos_coeffs s" and "s_v1 s' = 0 \<and> s_v2 s' = 0"
  shows "iirfiltsos_clear s = s'"
  using assms by (simp add: iirfiltsos_clear_def sos_coeffs_def)

lemma cleared_sections:
  assumes "map sos_coeffs ss' = map sos_coeffs ss"
    and "list_all (\<lambda>s. s_v1 s = 0 \<and> s_v2 s = 0) ss'"
  shows "map iirfiltsos_clear ss = ss'"
proof (rule nth_equalityI)
  from assms(1) have "length (map sos_coeffs ss') = length (map sos_coeffs ss)" by simp
  then show len: "length (map iirfiltsos_clear ss) = length ss'" by simp
  fix i assume "i < length (map iirfiltsos_clear ss)"
  then have i: "i < length ss" "i < length ss'" using len by simp_all
  from assms(1) i have "sos_coeffs (ss' ! i) = sos_coeffs (ss ! i)"
    by (metis nth_map)
  moreover from assms(2) i have "s_v1 (ss' ! i) = 0 \<and> s_v2 (ss' ! i) = 0"
    by (simp add: list_all_length)
  ultimately show "map iirfiltsos_clear ss ! i = ss' ! i"
    using i by (simp add: cleared_section)
qed

lemma execute_same_run:
  assumes "same_run q q'"
  shows "snd (execute q' x) = snd (execute q x) \<and> same_run (fst (execute q x)) (fst (execute q' x))"
proof (cases "q_type q = IIRFILT_TYPE_NORM")
  case True
  with assms show ?thesis
    by (simp add: same_run_def execute_def execute_norm_def Let_def)
next
  case False
  with assms show ?thesis
    by (simp add: same_run_def execute_def execute_sos_def split: prod.splits)
qed

lemma execute_seq_same_run: "same_run q q' \<Longrightarrow> execute_seq q' xs = execute_seq q xs"
proof (induction xs arbitrary: q q')
  case Nil
  then show ?case by simp
next
  case (Cons x xs)
  from execute_same_run [OF Cons.prems, of x]
  have y: "snd (execute q' x) = snd (execute q x)"
    and r: "same_run (fst (execute q x)) (fst (execute q' x))"
    by simp_all
  from Cons.IH [OF r] y show ?case
    by (simp add: split_beta)
qed

lemma create_fresh:
  assumes "create m xb nb xa na = Inr q0"
  shows "valid_norm q0 \<and> state_zero q0"
  using create_Inr [OF assms]
  by (simp add: valid_norm_def state_zero_def list_all_length)

lemma create_sos_fresh:
  assumes "create_sos m B A k = Inr q0"
  shows "valid_sos q0 \<and> state_zero q0"
  using create_sos_Inr [OF assms]
  by (simp add: valid_sos_def state_zero_def list_all_length norm_section_def)

lemma clear_same_run:
  assumes "valid q" and "valid q0" and "state_zero q0" and "same_design q q0"
  shows "same_run (clear q) q0"
proof (cases "q_type q = IIRFILT_TYPE_NORM")
  case True
  with assms(1) have v: "valid_norm q"
    by (auto simp: valid_def valid_sos_def)
  from True assms(4) have t0: "q_type q0 = IIRFILT_TYPE_NORM" and n: "q_n q0 = q_n q"
    by (simp_all add: same_design_def)
  with assms(2) have "length (q_v q0) = q_n q"
    by (auto simp: valid_def valid_norm_def valid_sos_def)
  moreover from assms(3) t0 have "q_v q0 = replicate (length (q_v q0)) 0"
    by (simp add: state_zero_def replicate_zero)
  ultimately have "q_v q0 = replicate (q_n q) 0" by simp
  moreover from v have "zero_fill (q_n q) (q_v q) = replicate (q_n q) 0"
    by (simp add: valid_norm_def zero_fill_all)
  ultimately show ?thesis
    using True assms(4) by (simp add: same_run_def same_design_def clear_def)
next
  case False
  then have t: "q_type q = IIRFILT_TYPE_SOS" by (cases "q_type q") simp_all
  with assms(1) have "length (q_qsos q) = q_nsos q"
    by (auto simp: valid_def valid_norm_def valid_sos_def)
  then have c: "clear_sections (q_nsos q) (q_qsos q) = map iirfiltsos_clear (q_qsos q)"
    by (simp add: clear_sections_all)
  from t assms(3,4) have "map iirfiltsos_clear (q_qsos q) = q_qsos q0"
    by (intro cleared_sections) (simp_all add: same_design_def state_zero_def)
  with c t assms(4) show ?thesis
    by (simp add: same_run_def same_design_def clear_def)
qed

lemma clear_state_zero: "valid q \<Longrightarrow> state_zero (clear q)"
proof (cases "q_type q = IIRFILT_TYPE_SOS")
  case True
  assume "valid q"
  with True have "length (q_qsos q) = q_nsos q"
    by (auto simp: valid_def valid_norm_def valid_sos_def)
  with True show ?thesis
    by (simp add: state_zero_def clear_def clear_sections_all list_all_length
        iirfiltsos_clear_def)
next
  case False
  assume "valid q"
  with False have "length (q_v q) = q_n q"
    by (auto simp: valid_def valid_norm_def valid_sos_def)
  with False show ?thesis
    by (simp add: state_zero_def clear_def zero_fill_all list_all_length)
qed

lemma clear_same_coefficients: "valid q \<Longrightarrow> same_coefficients q (clear q)"
proof (cases "q_type q = IIRFILT_TYPE_SOS")
  case True
  assume "valid q"
  with True have "length (q_qsos q) = q_nsos q"
    by (auto simp: valid_def valid_norm_def valid_sos_def)
  with True show ?thesis
    by (simp add: same_coefficients_def clear_def clear_sections_all iirfiltsos_clear_def
        sos_coeffs_def)
next
  case False
  then show ?thesis
    by (simp add: same_coefficients_def clear_def)
qed

section \<open>Claims on clearing\<close>

text \<open>
  Claim C6: on a validly constructed filter of either form, \<^verbatim>\<open>clear\<close> zeroes every
  cell of the state (the whole buffer in normal form, the two delay cells of every section
  otherwise) and changes no coefficient and no count. The cleared filter then answers
  every input sequence as the filter a constructor has just returned for the same design
  does.
\<close>

theorem clear_resets_state:
  assumes "valid q"
  shows "state_zero (clear q) \<and> same_coefficients q (clear q) \<and>
         (q_type q = IIRFILT_TYPE_NORM \<longrightarrow> q_v (clear q) = replicate (q_n q) 0) \<and>
         ((create m xb nb xa na = Inr q0 \<or> create_sos m B A k = Inr q0) \<and> same_design q q0 \<longrightarrow>
            execute_seq (clear q) xs = execute_seq q0 xs)"
proof -
  have z: "state_zero (clear q)" and c: "same_coefficients q (clear q)"
    using assms by (simp_all add: clear_state_zero clear_same_coefficients)
  have v: "q_v (clear q) = replicate (q_n q) 0" if "q_type q = IIRFILT_TYPE_NORM"
    using that assms by (auto simp: clear_def valid_def valid_norm_def valid_sos_def zero_fill_all)
  have r: "execute_seq (clear q) xs = execute_seq q0 xs"
    if f: "create m xb nb xa na = Inr q0 \<or> create_sos m B A k = Inr q0"
      and d: "same_design q q0"
  proof -
    from f have "valid q0 \<and> state_zero q0"
      using create_fresh create_sos_fresh by (auto simp: valid_def)
    with assms d have "same_run (clear q) q0"
      by (simp add: clear_same_run)
    then show ?thesis
      by (simp add: execute_seq_same_run)
  qed
  from z c v r show ?thesis by blast
qed

theorem clear_resets_state_witness:
  "valid example_norm \<and> create blank [1, - 1] 2 [1, - 1 / 2] 2 = Inr example_fresh \<and>
   same_design example_norm example_fresh \<and>
   q_v (clear example_norm) = [0, 0] \<and>
   execute_seq example_norm [1, 0] = [- 1 / 2, - 5 / 4] \<and>
   execute_seq (clear example_norm) [1, 0] = [1, - 1 / 2] \<and>
   execute_seq example_fresh [1, 0] = [1, - 1 / 2]"
proof -
  have v: "valid example_norm"
    by (simp add: valid_def valid_norm_def example_norm_def)
  have f: "create blank [1, - 1] 2 [1, - 1 / 2] 2 = Inr example_fresh"
    by (simp add: create_def Let_def example_fresh_def clear_def numeral_2_eq_2)
  have d: "same_design example_norm example_fresh"
    by (simp add: same_design_def example_norm_def example_fresh_def)
  have o: "execute_seq example_fresh [1, 0] = [1, - 1 / 2]"
    by (simp add: execute_def execute_norm_def example_fresh_def blank_def Let_def
        numeral_2_eq_2)
  have p: "execute_seq example_norm [1, 0] = [- 1 / 2, - 5 / 4]"
    by (simp add: execute_def execute_norm_def example_norm_def Let_def numeral_2_eq_2)
  from clear_resets_state [OF v, of blank "[1, - 1]" 2 "[1, - 1 / 2]" 2 example_fresh
      "[]" "[]" 0 "[1, 0]"] f d o
  have "q_v (clear example_norm) = [0, 0]"
    "execute_seq (clear example_norm) [1, 0] = [1, - 1 / 2]"
    by (simp_all add: example_norm_def numeral_2_eq_2)
  with v f d o p show ?thesis by simp
qed


section \<open>The invariant is kept\<close>

lemma run_sections_length: "length (fst (run_sections k ss t0 t1)) = length ss"
  by (induction k) (simp_all add: split_beta)

lemma execute_valid:
  assumes "valid q"
  shows "valid (fst (execute q x))"
proof (cases "q_type q = IIRFILT_TYPE_NORM")
  case True
  with assms have "valid_norm q"
    by (auto simp: valid_def valid_sos_def)
  then have "valid_norm (fst (execute_norm q x))"
    by (simp add: valid_norm_def execute_norm_def Let_def length_advance)
  with True show ?thesis
    by (simp add: valid_def execute_def)
next
  case False
  with assms have "valid_sos q"
    by (auto simp: valid_def valid_norm_def)
  then have "valid_sos (fst (execute_sos q x))"
    using run_sections_length [of "q_nsos q" "q_qsos q" x 0]
    by (simp add: valid_sos_def execute_sos_def split_beta)
  with False show ?thesis
    by (simp add: valid_def execute_def)
qed

lemma clear_valid:
  assumes "valid q"
  shows "valid (clear q)"
  using assms
  by (auto simp: valid_def valid_norm_def valid_sos_def clear_def length_zero_fill
      length_clear_sections)

end
